theory Spec2Isabelle
  imports Main "HOL-Library.Multiset"
begin

section \<open>The destructor stack of raii\_in\_c.h\<close>

text \<open>
  The header \<^verbatim>\<open>include/raii_in_c.h\<close> consists of macros that expand, inside one C
  function, to three local variables and to code around computed gotos:
  \<^item> \<^verbatim>\<open>destructor_label_addresses[n]\<close>, an array of label addresses, not initialised;
  \<^item> \<^verbatim>\<open>return_label_address\<close>, the label a destructor block jumps back to, initially NULL;
  \<^item> \<^verbatim>\<open>next_label_address\<close>, a pointer into the array (the cursor), initially the
    array's first element.

  The embedding keeps the three variables as the fields of a record. A label address
  \<^verbatim>\<open>&&destructor<lineno>\<close> is a value of the type parameter \<open>'l\<close>; a slot of the array
  that has never been written holds \<open>None\<close>. A pointer into the array is the integer
  offset from \<^verbatim>\<open>destructor_label_addresses\<close>, so that
  \<^verbatim>\<open>destructor_label_addresses - 1\<close> is \<open>-1\<close>. A label address \<^verbatim>\<open>&&return<lineno>\<close>
  is the line number of its \<^verbatim>\<open>END_SCOPE\<close>.

  The body \<^verbatim>\<open>({__VA_ARGS__})\<close> of a destructor block is code of the caller, taken
  not to use the macros itself. What the embedding observes of it is that it ran:
  the field \<open>executed\<close> lists the labels of the destructor blocks whose bodies have
  run, oldest first. It is the only field that is not a variable of the C code.

  \<^verbatim>\<open>assert\<close> is modelled as compiled in (no \<^verbatim>\<open>NDEBUG\<close>): a failed assertion aborts
  the program, which is the result \<open>Inl AssertionFailed\<close>. Reading a slot that was
  never written, reading outside the array, jumping to NULL and declaring an array
  of negative length have no defined behaviour in C: the result
  \<open>Inl UndefinedBehaviour\<close>.
\<close>

datatype failure = AssertionFailed | UndefinedBehaviour

record 'l frame =
  destructor_label_addresses :: "'l option list"
  return_label_address :: "nat option"
  next_label_address :: int
  executed :: "'l list"

text \<open>
  \<^verbatim>\<open>MAKE_DESTRUCTOR_STACK(n)\<close>, lines 14 to 19: declares the array with \<open>n\<close> elements,
  sets \<^verbatim>\<open>return_label_address = NULL\<close> and
  \<^verbatim>\<open>next_label_address = destructor_label_addresses\<close>. The macro contains no
  \<^verbatim>\<open>assert\<close>. Its argument \<open>n\<close> is the value of the C expression written as the
  array's length; the expression need not be constant (the array is then of
  variable length), and a negative value makes the declaration undefined.
\<close>

definition MAKE_DESTRUCTOR_STACK :: "int \<Rightarrow> failure + 'l frame" where
  "MAKE_DESTRUCTOR_STACK n =
     (if n < 0 then Inl UndefinedBehaviour
      else Inr \<lparr>destructor_label_addresses = replicate (nat n) None,
                return_label_address = None,
                next_label_address = 0,
                executed = []\<rparr>)"

text \<open>
  \<^verbatim>\<open>sizeof destructor_label_addresses/sizeof destructor_label_addresses[0]\<close>: the number
  of elements of the array.
\<close>

definition capacity :: "'l frame \<Rightarrow> int" where
  "capacity s = int (length (destructor_label_addresses s))"

text \<open>
  \<^verbatim>\<open>PUSH_DESTRUCTOR__(lineno, ...)\<close>, lines 20 to 28. Two assertions, then
  \<^verbatim>\<open>*next_label_address++ = &&destructor<lineno>\<close>, then
  \<^verbatim>\<open>goto after_destructor<lineno>\<close>, which jumps over the destructor block: nothing is
  added to \<open>executed\<close>.
\<close>

definition PUSH_DESTRUCTOR :: "'l \<Rightarrow> 'l frame \<Rightarrow> failure + 'l frame" where
  "PUSH_DESTRUCTOR l s =
     (if \<not> 0 \<le> next_label_address s then Inl AssertionFailed
      else if \<not> 0 + capacity s > next_label_address s then Inl AssertionFailed
      else Inr (s\<lparr>destructor_label_addresses :=
                     (destructor_label_addresses s)[nat (next_label_address s) := Some l],
                   next_label_address := next_label_address s + 1\<rparr>))"

text \<open>
  \<^verbatim>\<open>BEGIN_SCOPE\<close>, lines 31 to 33: declares the local variable
  \<^verbatim>\<open>destructor_label_address_stack_end\<close> of the enclosing C block and sets it to
  \<^verbatim>\<open>next_label_address - 1\<close>. The variable belongs to the block, not to the stack, so
  the embedding returns its value; \<open>END_SCOPE\<close> below takes the value of the variable
  that is visible where the macro stands.
\<close>

definition BEGIN_SCOPE :: "'l frame \<Rightarrow> int" where
  "BEGIN_SCOPE s = next_label_address s - 1"

text \<open>
  The destructor block, lines 25 to 27: the body runs, then
  \<^verbatim>\<open>goto *return_label_address\<close>. The result is the frame with which control arrives
  at the return label.
\<close>

definition destructor :: "'l \<Rightarrow> 'l frame \<Rightarrow> failure + 'l frame" where
  "destructor l s =
     (let s' = s\<lparr>executed := executed s @ [l]\<rparr>
      in case return_label_address s' of
           None \<Rightarrow> Inl UndefinedBehaviour
         | Some lineno \<Rightarrow> Inr s')"

text \<open>Reading \<^verbatim>\<open>*p\<close> for a pointer \<open>p\<close> into the array.\<close>

definition deref :: "'l option list \<Rightarrow> int \<Rightarrow> 'l option" where
  "deref a p = (if 0 \<le> p \<and> p < int (length a) then a ! nat p else None)"

text \<open>
  The code at the label \<^verbatim>\<open>return<lineno>\<close>, lines 36 to 40: the assertion, then the
  test \<^verbatim>\<open>next_label_address - 1 != destructor_label_address_stack_end\<close>; in the branch
  the cursor is decremented, the second assertion is checked and control jumps to
  the popped label, from where the destructor block jumps back to the return label.
\<close>

function return_label :: "int \<Rightarrow> 'l frame \<Rightarrow> failure + 'l frame" where
  "return_label destructor_label_address_stack_end s =
     (if \<not> destructor_label_address_stack_end < next_label_address s then Inl AssertionFailed
      else if next_label_address s - 1 \<noteq> destructor_label_address_stack_end then
        (let destructor_label_address = next_label_address s - 1;
             s1 = s\<lparr>next_label_address := destructor_label_address\<rparr>
         in if \<not> 0 \<le> destructor_label_address then Inl AssertionFailed
            else (case deref (destructor_label_addresses s1) destructor_label_address of
                    None \<Rightarrow> Inl UndefinedBehaviour
                  | Some l \<Rightarrow>
                      (case destructor l s1 of
                         Inl f \<Rightarrow> Inl f
                       | Inr s2 \<Rightarrow> return_label destructor_label_address_stack_end s2)))
      else Inr s)"
  by pat_completeness auto
termination
proof (relation "measure (\<lambda>(e, s). nat (next_label_address s - e))")
  show "wf (measure (\<lambda>(e, s). nat (next_label_address s - e)))"
    by simp
next
  fix e :: int and s :: "'l frame" and p s1 l s2
  assume "\<not> \<not> e < next_label_address s"
    and "p = next_label_address s - 1"
    and "s1 = s\<lparr>next_label_address := p\<rparr>"
    and "destructor l s1 = Inr s2"
  then show "((e, s2), (e, s)) \<in> measure (\<lambda>(e, s). nat (next_label_address s - e))"
    by (auto simp: destructor_def Let_def split: option.splits)
qed

text \<open>
  \<^verbatim>\<open>END_SCOPE__(lineno)\<close>, lines 34 to 40: sets
  \<^verbatim>\<open>return_label_address = &&return<lineno>\<close> and falls into the return label.
\<close>

definition END_SCOPE :: "nat \<Rightarrow> int \<Rightarrow> 'l frame \<Rightarrow> failure + 'l frame" where
  "END_SCOPE lineno destructor_label_address_stack_end s =
     return_label destructor_label_address_stack_end (s\<lparr>return_label_address := Some lineno\<rparr>)"

text \<open>
  \<^verbatim>\<open>END_SCOPE_AND_BREAK\<close>, lines 43 and 44: \<^verbatim>\<open>END_SCOPE\<close>, then \<^verbatim>\<open>break\<close> in both
  branches of the \<^verbatim>\<open>if\<close>.
\<close>

definition END_SCOPE_AND_BREAK :: "nat \<Rightarrow> int \<Rightarrow> 'l frame \<Rightarrow> failure + 'l frame" where
  "END_SCOPE_AND_BREAK lineno destructor_label_address_stack_end s =
     END_SCOPE lineno destructor_label_address_stack_end s"

text \<open>
  \<^verbatim>\<open>END_SCOPE_AND_RETURN(ret)\<close>, lines 45 and 46: assigns
  \<^verbatim>\<open>destructor_label_addresses - 1\<close> to the visible
  \<^verbatim>\<open>destructor_label_address_stack_end\<close>, then \<^verbatim>\<open>END_SCOPE\<close>, then \<^verbatim>\<open>return (ret)\<close>
  in both branches. The value the variable held before is not read.
\<close>

definition END_SCOPE_AND_RETURN :: "nat \<Rightarrow> 'l frame \<Rightarrow> failure + 'l frame" where
  "END_SCOPE_AND_RETURN lineno s =
     (let destructor_label_address_stack_end = 0 - 1
      in END_SCOPE lineno destructor_label_address_stack_end s)"

section \<open>Sequences of operations\<close>

text \<open>
  The properties below speak about sequences of macro uses in one function body. A
  sequence of \<^verbatim>\<open>PUSH_DESTRUCTOR\<close> stops at the first failure, as the abort would.
\<close>

fun pushes :: "'l list \<Rightarrow> 'l frame \<Rightarrow> failure + 'l frame" where
  "pushes [] s = Inr s"
| "pushes (l # ls) s =
     (case PUSH_DESTRUCTOR l s of Inl f \<Rightarrow> Inl f | Inr s' \<Rightarrow> pushes ls s')"

text \<open>
  An arbitrary straight-line use of the macros after \<^verbatim>\<open>MAKE_DESTRUCTOR_STACK\<close>. The
  unwinding macros read the variable \<^verbatim>\<open>destructor_label_address_stack_end\<close> that is
  visible where they stand; which \<^verbatim>\<open>BEGIN_SCOPE\<close> declared it is decided by the C
  block structure around the macros, so an operation carries the value the variable
  holds, and a property proved for every sequence holds whatever the blocks are.
  \<^verbatim>\<open>BEGIN_SCOPE\<close> only declares and sets that variable: it leaves the frame as it is.
\<close>

datatype 'l operation =
    Push 'l
  | MarkScope
  | UnwindToMarker nat int
  | UnwindAndBreak nat int
  | UnwindAll nat

fun step :: "'l operation \<Rightarrow> 'l frame \<Rightarrow> failure + 'l frame" where
  "step (Push l) s = PUSH_DESTRUCTOR l s"
| "step MarkScope s = (let destructor_label_address_stack_end = BEGIN_SCOPE s in Inr s)"
| "step (UnwindToMarker lineno e) s = END_SCOPE lineno e s"
| "step (UnwindAndBreak lineno e) s = END_SCOPE_AND_BREAK lineno e s"
| "step (UnwindAll lineno) s = END_SCOPE_AND_RETURN lineno s"

fun run :: "'l operation list \<Rightarrow> 'l frame \<Rightarrow> failure + 'l frame" where
  "run [] s = Inr s"
| "run (x # xs) s = (case step x s of Inl f \<Rightarrow> Inl f | Inr s' \<Rightarrow> run xs s')"

text \<open>The labels a sequence of operations pushes, in the order of the pushes.\<close>

fun pushed :: "'l operation list \<Rightarrow> 'l list" where
  "pushed [] = []"
| "pushed (Push l # xs) = l # pushed xs"
| "pushed (x # xs) = pushed xs"

section \<open>The return label and runs of pushes\<close>

declare return_label.simps [simp del]

lemma return_label_done:
  "next_label_address s - 1 = e \<Longrightarrow> return_label e s = Inr s"
  by (subst return_label.simps) simp

lemma return_label_below:
  "next_label_address s \<le> e \<Longrightarrow> return_label e s = Inl AssertionFailed"
  by (subst return_label.simps) simp

lemma return_label_pop:
  assumes "e < next_label_address s - 1" "0 < next_label_address s"
    "deref (destructor_label_addresses s) (next_label_address s - 1) = Some l"
    "return_label_address s = Some r"
  shows "return_label e s =
           return_label e (s\<lparr>next_label_address := next_label_address s - 1,
                              executed := executed s @ [l]\<rparr>)"
  using assms by (subst return_label.simps) (simp add: destructor_def Let_def)

lemma return_label_pops:
  assumes "return_label_address s = Some r"
    and "destructor_label_addresses s = pre @ map Some js @ post"
    and "next_label_address s = int (length pre + length js)"
  shows "return_label (int (length pre) - 1) s =
           Inr (s\<lparr>next_label_address := int (length pre), executed := executed s @ rev js\<rparr>)"
  using assms
proof (induction js arbitrary: s post rule: rev_induct)
  case Nil
  then show ?case by (simp add: return_label_done)
next
  case (snoc j js)
  let ?s = "s\<lparr>next_label_address := next_label_address s - 1, executed := executed s @ [j]\<rparr>"
  have p: "next_label_address s - 1 = int (length pre + length js)"
    using snoc.prems by simp
  have d: "deref (destructor_label_addresses s) (next_label_address s - 1) = Some j"
    unfolding p deref_def using snoc.prems(2) by (simp add: nth_append del: of_nat_add)
  have "return_label (int (length pre) - 1) s = return_label (int (length pre) - 1) ?s"
    using snoc.prems d by (intro return_label_pop) auto
  also have "\<dots> = Inr (?s\<lparr>next_label_address := int (length pre), executed := executed ?s @ rev js\<rparr>)"
    using snoc.prems by (intro snoc.IH [where post = "Some j # post"]) auto
  finally show ?case by simp
qed

lemma pushes_fill:
  assumes "destructor_label_addresses s = pre @ free"
    and "next_label_address s = int (length pre)"
    and "length ls \<le> length free"
  shows "pushes ls s =
           Inr (s\<lparr>destructor_label_addresses := pre @ map Some ls @ drop (length ls) free,
                   next_label_address := int (length pre + length ls)\<rparr>)"
  using assms
proof (induction ls arbitrary: s pre free)
  case Nil
  then show ?case by simp
next
  case (Cons l ls)
  then obtain x free' where free: "free = x # free'"
    by (cases free) auto
  let ?s = "s\<lparr>destructor_label_addresses := (pre @ [Some l]) @ free',
                next_label_address := int (length (pre @ [Some l]))\<rparr>"
  have "PUSH_DESTRUCTOR l s = Inr ?s"
    using Cons.prems free by (simp add: PUSH_DESTRUCTOR_def capacity_def)
  moreover have "pushes ls ?s =
      Inr (?s\<lparr>destructor_label_addresses := (pre @ [Some l]) @ map Some ls @ drop (length ls) free',
               next_label_address := int (length (pre @ [Some l]) + length ls)\<rparr>)"
    using Cons.prems free by (intro Cons.IH) auto
  ultimately show ?case using free by simp
qed

lemma return_label_Inr:
  "return_label e s = Inr s' \<Longrightarrow>
     next_label_address s' = e + 1 \<and>
     destructor_label_addresses s' = destructor_label_addresses s \<and>
     return_label_address s' = return_label_address s \<and>
     (\<exists>ls. executed s' = executed s @ rev ls \<and>
           next_label_address s = next_label_address s' + int (length ls) \<and>
           (ls \<noteq> [] \<longrightarrow> 0 \<le> next_label_address s') \<and>
           take (length ls) (drop (nat (next_label_address s')) (destructor_label_addresses s)) = map Some ls)"
proof (induction e s rule: return_label.induct)
  case (1 e s)
  show ?case
  proof (cases "next_label_address s - 1 = e")
    case True
    with "1.prems" have "s' = s" by (simp add: return_label_done)
    with True show ?thesis by auto
  next
    case False
    let ?p = "next_label_address s - 1"
    let ?s1 = "s\<lparr>next_label_address := ?p\<rparr>"
    from "1.prems" False have lt: "e < next_label_address s" and p0: "0 \<le> ?p"
      by (subst (asm) return_label.simps, auto simp: Let_def split: if_splits)+
    from "1.prems" False lt p0 obtain l where l1: "deref (destructor_label_addresses ?s1) ?p = Some l"
      by (subst (asm) return_label.simps) (auto simp: Let_def split: option.splits)
    then have l: "deref (destructor_label_addresses s) ?p = Some l"
      by simp
    from "1.prems" False lt p0 l obtain s2 where s2: "destructor l ?s1 = Inr s2"
      and r: "return_label e s2 = Inr s'"
      by (subst (asm) return_label.simps) (auto simp: Let_def split: sum.splits)
    from s2 have s2eq: "s2 = ?s1\<lparr>executed := executed s @ [l]\<rparr>"
      by (auto simp: destructor_def Let_def split: option.splits)
    have IH: "next_label_address s' = e + 1 \<and>
     destructor_label_addresses s' = destructor_label_addresses s2 \<and>
     return_label_address s' = return_label_address s2 \<and>
     (\<exists>ls. executed s' = executed s2 @ rev ls \<and>
           next_label_address s2 = next_label_address s' + int (length ls) \<and>
           (ls \<noteq> [] \<longrightarrow> 0 \<le> next_label_address s') \<and>
           take (length ls) (drop (nat (next_label_address s')) (destructor_label_addresses s2)) = map Some ls)"
    proof (rule "1.IH" [OF _ False refl refl _ l1 s2 r])
      show "\<not> \<not> e < next_label_address s" using lt by simp
      show "\<not> \<not> 0 \<le> ?p" using p0 by simp
    qed
    then obtain ls where ls: "executed s' = executed s2 @ rev ls"
      "next_label_address s2 = next_label_address s' + int (length ls)"
      "take (length ls) (drop (nat (next_label_address s')) (destructor_label_addresses s2)) = map Some ls"
      "ls \<noteq> [] \<longrightarrow> 0 \<le> next_label_address s'"
      by blast
    have n0: "0 \<le> next_label_address s'"
      using ls(2,4) p0 by (cases ls) (simp_all add: s2eq)
    have plen: "?p < int (length (destructor_label_addresses s))"
      using l by (auto simp: deref_def split: if_splits)
    have nth: "destructor_label_addresses s ! nat ?p = Some l"
      using l by (auto simp: deref_def split: if_splits)
    have idx: "nat ?p = nat (next_label_address s') + length ls"
      using ls(2) n0 by (simp add: s2eq)
    have "take (Suc (length ls)) (drop (nat (next_label_address s')) (destructor_label_addresses s))
            = map Some (ls @ [l])"
      using ls(3) nth plen p0 idx
      by (simp add: s2eq take_Suc_conv_app_nth)
    moreover have "executed s' = executed s @ rev (ls @ [l])"
      using ls(1) by (simp add: s2eq)
    moreover have "next_label_address s = next_label_address s' + int (length (ls @ [l]))"
      using ls(2) by (simp add: s2eq)
    ultimately have "\<exists>ls. executed s' = executed s @ rev ls \<and>
           next_label_address s = next_label_address s' + int (length ls) \<and>
           (ls \<noteq> [] \<longrightarrow> 0 \<le> next_label_address s') \<and>
           take (length ls) (drop (nat (next_label_address s')) (destructor_label_addresses s)) = map Some ls"
      using n0 by (intro exI [of _ "ls @ [l]"]) simp
    with IH show ?thesis by (simp add: s2eq)
  qed
qed


lemma MAKE_DESTRUCTOR_STACK_nat:
  "MAKE_DESTRUCTOR_STACK (int n) =
     Inr \<lparr>destructor_label_addresses = replicate n None, return_label_address = None,
          next_label_address = 0, executed = []\<rparr>"
  by (simp add: MAKE_DESTRUCTOR_STACK_def)

lemma pushes_append:
  "pushes (ks @ js) s = (case pushes ks s of Inl f \<Rightarrow> Inl f | Inr s' \<Rightarrow> pushes js s')"
  by (induction ks arbitrary: s) (auto split: sum.splits)

lemma pushes_fresh:
  assumes "length ls \<le> n"
  shows "pushes ls \<lparr>destructor_label_addresses = replicate n None, return_label_address = None,
                    next_label_address = 0, executed = []\<rparr> =
           Inr \<lparr>destructor_label_addresses = map Some ls @ replicate (n - length ls) None,
                return_label_address = None,
                next_label_address = int (length ls), executed = []\<rparr>"
  using pushes_fill [where pre = "[]" and free = "replicate n None" and ls = ls
      and s = "\<lparr>destructor_label_addresses = replicate n None, return_label_address = None,
                    next_label_address = 0, executed = []\<rparr>"] assms
  by simp

lemma END_SCOPE_pops:
  assumes "destructor_label_addresses s = pre @ map Some js @ post"
    and "next_label_address s = int (length pre + length js)"
  shows "END_SCOPE lineno (int (length pre) - 1) s =
           Inr (s\<lparr>return_label_address := Some lineno, next_label_address := int (length pre),
                   executed := executed s @ rev js\<rparr>)"
  unfolding END_SCOPE_def
  using return_label_pops [where s = "s\<lparr>return_label_address := Some lineno\<rparr>" and r = lineno
      and pre = pre and js = js and post = post] assms
  by simp

lemma END_SCOPE_Inr:
  assumes "END_SCOPE lineno e s = Inr s'"
  shows "next_label_address s' = e + 1"
    and "destructor_label_addresses s' = destructor_label_addresses s"
    and "return_label_address s' = Some lineno"
    and "\<exists>ls. executed s' = executed s @ rev ls \<and>
           next_label_address s = next_label_address s' + int (length ls) \<and>
           (ls \<noteq> [] \<longrightarrow> 0 \<le> next_label_address s') \<and>
           take (length ls) (drop (nat (next_label_address s')) (destructor_label_addresses s)) = map Some ls"
proof -
  note r = return_label_Inr [OF assms [unfolded END_SCOPE_def]]
  show "next_label_address s' = e + 1"
    and "destructor_label_addresses s' = destructor_label_addresses s"
    and "return_label_address s' = Some lineno"
    using r by simp_all
  from r have "\<exists>ls. executed s' = executed (s\<lparr>return_label_address := Some lineno\<rparr>) @ rev ls \<and>
           next_label_address (s\<lparr>return_label_address := Some lineno\<rparr>) =
             next_label_address s' + int (length ls) \<and>
           (ls \<noteq> [] \<longrightarrow> 0 \<le> next_label_address s') \<and>
           take (length ls) (drop (nat (next_label_address s'))
             (destructor_label_addresses (s\<lparr>return_label_address := Some lineno\<rparr>))) = map Some ls"
    by blast
  then show "\<exists>ls. executed s' = executed s @ rev ls \<and>
           next_label_address s = next_label_address s' + int (length ls) \<and>
           (ls \<noteq> [] \<longrightarrow> 0 \<le> next_label_address s') \<and>
           take (length ls) (drop (nat (next_label_address s')) (destructor_label_addresses s)) = map Some ls"
    by simp
qed


lemma unwind_cases:
  assumes "step x s = Inr s'"
  obtains l where "x = Push l" "PUSH_DESTRUCTOR l s = Inr s'"
  | "x = MarkScope" "s' = s"
  | lineno e where "END_SCOPE lineno e s = Inr s'" "pushed [x] = []"
  using assms
  by (cases x) (auto simp: END_SCOPE_AND_BREAK_def END_SCOPE_AND_RETURN_def Let_def)

lemma step_cursor_in_range:
  assumes "step x s = Inr s'" and "0 \<le> next_label_address s"
    and "next_label_address s \<le> capacity s"
  shows "0 \<le> next_label_address s' \<and> next_label_address s' \<le> capacity s' \<and>
         capacity s' = capacity s"
  using assms(1)
proof (cases rule: unwind_cases)
  case (1 l)
  then show ?thesis
    using assms(2,3) by (auto simp: PUSH_DESTRUCTOR_def capacity_def split: if_splits)
next
  case 2
  then show ?thesis using assms(2,3) by simp
next
  case (3 lineno e)
  from END_SCOPE_Inr(4) [OF 3(1)] obtain ls where
    ls: "next_label_address s = next_label_address s' + int (length ls)"
      "ls \<noteq> [] \<longrightarrow> 0 \<le> next_label_address s'"
      "executed s' = executed s @ rev ls"
    by blast
  have "0 \<le> next_label_address s'"
    using ls assms(2) by (cases ls) simp_all
  moreover have "next_label_address s' \<le> next_label_address s"
    using ls(1) by simp
  ultimately show ?thesis
    using assms(3) END_SCOPE_Inr(2) [OF 3(1)] by (simp add: capacity_def)
qed

lemma run_cursor_in_range:
  assumes "run xs s = Inr s'" and "0 \<le> next_label_address s"
    and "next_label_address s \<le> capacity s"
  shows "0 \<le> next_label_address s' \<and> next_label_address s' \<le> capacity s' \<and>
         capacity s' = capacity s"
  using assms
proof (induction xs arbitrary: s)
  case Nil
  then show ?case by simp
next
  case (Cons x xs)
  then obtain s1 where s1: "step x s = Inr s1" and r: "run xs s1 = Inr s'"
    by (auto split: sum.splits)
  from step_cursor_in_range [OF s1 Cons.prems(2,3)] Cons.IH [OF r]
  show ?case by simp
qed

lemma pushed_Cons: "pushed (x # xs) = pushed [x] @ pushed xs"
  by (cases x) simp_all

lemma pushed_append: "pushed (xs @ ys) = pushed xs @ pushed ys"
proof (induction xs)
  case Nil
  then show ?case by simp
next
  case (Cons x xs)
  have "pushed ((x # xs) @ ys) = pushed [x] @ pushed (xs @ ys)"
    using pushed_Cons [of x "xs @ ys"] by simp
  also have "\<dots> = pushed [x] @ pushed xs @ pushed ys"
    using Cons.IH by simp
  also have "\<dots> = pushed (x # xs) @ pushed ys"
    using pushed_Cons [of x xs] by simp
  finally show ?case .
qed

lemma run_append:
  "run (xs @ ys) s = (case run xs s of Inl f \<Rightarrow> Inl f | Inr s' \<Rightarrow> run ys s')"
  by (induction xs arbitrary: s) (auto split: sum.splits)

lemma step_pending_mset:
  assumes st: "step x s = Inr s'"
    and lo: "0 \<le> next_label_address s" and hi: "next_label_address s \<le> capacity s"
    and pend: "take (nat (next_label_address s)) (destructor_label_addresses s) = map Some pend"
  shows "\<exists>pend'. take (nat (next_label_address s')) (destructor_label_addresses s') = map Some pend' \<and>
           mset pend' + mset (executed s') = mset pend + mset (executed s) + mset (pushed [x])"
  using st
proof (cases rule: unwind_cases)
  case (1 l)
  let ?k = "nat (next_label_address s)"
  from 1 lo hi have k: "?k < length (destructor_label_addresses s)"
    and s': "s' = s\<lparr>destructor_label_addresses := (destructor_label_addresses s)[?k := Some l],
                      next_label_address := next_label_address s + 1\<rparr>"
    by (auto simp: PUSH_DESTRUCTOR_def capacity_def split: if_splits)
  have n: "nat (next_label_address s + 1) = Suc ?k"
    using lo by simp
  have "take (Suc ?k) ((destructor_label_addresses s)[?k := Some l]) = map Some (pend @ [l])"
    using k pend by (simp add: take_Suc_conv_app_nth)
  moreover have "mset (pend @ [l]) + mset (executed s) = mset pend + mset (executed s) + mset (pushed [x])"
    using 1 by simp
  ultimately show ?thesis
    unfolding s' using n by (intro exI [of _ "pend @ [l]"]) simp
next
  case 2
  with pend show ?thesis by auto
next
  case (3 lineno e)
  from END_SCOPE_Inr(4) [OF 3(1)] obtain ls where
    ls: "executed s' = executed s @ rev ls"
      "next_label_address s = next_label_address s' + int (length ls)"
      "ls \<noteq> [] \<longrightarrow> 0 \<le> next_label_address s'"
      "take (length ls) (drop (nat (next_label_address s')) (destructor_label_addresses s)) = map Some ls"
    by blast
  let ?k = "nat (next_label_address s')"
  have k0: "0 \<le> next_label_address s'"
    using ls(2,3) lo by (cases ls) simp_all
  then have n: "nat (next_label_address s) = ?k + length ls"
    using ls(2) by simp
  have "map Some pend = take ?k (destructor_label_addresses s) @ map Some ls"
    using pend ls(4) unfolding n by (simp add: take_add)
  moreover have "length (take ?k (destructor_label_addresses s)) = ?k"
    using hi n by (simp add: capacity_def)
  ultimately have a: "take ?k (destructor_label_addresses s) = map Some (take ?k pend)"
    and b: "map Some ls = map Some (drop ?k pend)"
    by (metis append_eq_conv_conj take_map, metis append_eq_conv_conj drop_map)
  from b have "ls = drop ?k pend"
    by simp
  then have "pend = take ?k pend @ ls"
    by simp
  then have "mset pend = mset (take ?k pend) + mset ls"
    by (metis mset_append)
  then have "mset (take ?k pend) + mset (executed s') =
      mset pend + mset (executed s) + mset (pushed [x])"
    unfolding ls(1) using 3(2) by simp
  with a show ?thesis
    using END_SCOPE_Inr(2) [OF 3(1)] by auto
qed

lemma run_pending_mset:
  assumes "run xs s = Inr s'"
    and "0 \<le> next_label_address s" and "next_label_address s \<le> capacity s"
    and "take (nat (next_label_address s)) (destructor_label_addresses s) = map Some pend"
  shows "\<exists>pend'. take (nat (next_label_address s')) (destructor_label_addresses s') = map Some pend' \<and>
           mset pend' + mset (executed s') = mset pend + mset (executed s) + mset (pushed xs)"
  using assms
proof (induction xs arbitrary: s pend)
  case Nil
  then show ?case by auto
next
  case (Cons x xs)
  then obtain s1 where s1: "step x s = Inr s1" and r: "run xs s1 = Inr s'"
    by (auto split: sum.splits)
  from step_pending_mset [OF s1 Cons.prems(2,3,4)] obtain pend1 where
    p: "take (nat (next_label_address s1)) (destructor_label_addresses s1) = map Some pend1"
      "mset pend1 + mset (executed s1) = mset pend + mset (executed s) + mset (pushed [x])"
    by blast
  from step_cursor_in_range [OF s1 Cons.prems(2,3)]
  have "0 \<le> next_label_address s1" "next_label_address s1 \<le> capacity s1"
    by simp_all
  from Cons.IH [OF r this p(1)] obtain pend' where
    q: "take (nat (next_label_address s')) (destructor_label_addresses s') = map Some pend'"
      "mset pend' + mset (executed s') = mset pend1 + mset (executed s1) + mset (pushed xs)"
    by blast
  have "mset pend' + mset (executed s') =
      mset pend + mset (executed s) + mset (pushed (x # xs))"
    unfolding q(2) p(2) by (subst (2) pushed_Cons) simp
  with q(1) show ?case by blast
qed

lemma fresh_run_accounts_for_pushes:
  assumes "MAKE_DESTRUCTOR_STACK n = Inr s0" and "run xs s0 = Inr s'"
  shows "\<exists>pend. take (nat (next_label_address s')) (destructor_label_addresses s') = map Some pend \<and>
           mset pend + mset (executed s') = mset (pushed xs)"
proof -
  from assms(1) have s0: "next_label_address s0 = 0" "executed s0 = []"
    by (auto simp: MAKE_DESTRUCTOR_STACK_def split: if_splits)
  from run_pending_mset [OF assms(2), of "[]"] s0 show ?thesis
    by (simp add: capacity_def)
qed

lemma END_SCOPE_then_PUSH:
  assumes e: "END_SCOPE lineno e s = Inr s1" and lt: "next_label_address s1 < next_label_address s"
  shows "deref (destructor_label_addresses s1) (next_label_address s1) = Some (last (executed s1)) \<and>
         PUSH_DESTRUCTOR l s1 =
           Inr (s1\<lparr>destructor_label_addresses :=
                     (destructor_label_addresses s1)[nat (next_label_address s1) := Some l],
                   next_label_address := next_label_address s1 + 1\<rparr>) \<and>
         deref ((destructor_label_addresses s1)[nat (next_label_address s1) := Some l])
           (next_label_address s1) = Some l"
proof -
  from END_SCOPE_Inr(4) [OF e] obtain ls where
    ls: "executed s1 = executed s @ rev ls"
      "next_label_address s = next_label_address s1 + int (length ls)"
      "ls \<noteq> [] \<longrightarrow> 0 \<le> next_label_address s1"
      "take (length ls) (drop (nat (next_label_address s1)) (destructor_label_addresses s)) = map Some ls"
    by blast
  let ?k = "nat (next_label_address s1)"
  let ?a = "destructor_label_addresses s"
  from lt ls(2) obtain x ls' where c: "ls = x # ls'"
    by (cases ls) auto
  with ls(3) have k0: "0 \<le> next_label_address s1"
    by simp
  from ls(4) c have d: "drop ?k ?a \<noteq> []"
    by auto
  then have k: "?k < length ?a"
    by simp
  from ls(4) c have "hd (drop ?k ?a) = Some x"
    by (cases "drop ?k ?a") auto
  with k have nth: "?a ! ?k = Some x"
    by (simp add: hd_drop_conv_nth)
  have same: "destructor_label_addresses s1 = ?a"
    by (rule END_SCOPE_Inr(2) [OF e])
  have "last (executed s1) = x"
    using ls(1) c by simp
  with nth k k0 same show ?thesis
    by (simp add: deref_def PUSH_DESTRUCTOR_def capacity_def)
qed

section \<open>Full unwind and scoped unwind\<close>

text \<open>
  Claim C1. For every capacity \<open>n\<close> and every list \<open>ls\<close> of at most \<open>n\<close> labels:
  \<^verbatim>\<open>MAKE_DESTRUCTOR_STACK(n)\<close>, one \<^verbatim>\<open>PUSH_DESTRUCTOR\<close> for each label of \<open>ls\<close> in turn
  and then \<^verbatim>\<open>END_SCOPE_AND_RETURN\<close> all succeed; the destructor bodies that ran are
  exactly \<open>rev ls\<close>, so each pushed action ran once, in the reverse order of the
  pushes; and the cursor is back at the start of the array.
\<close>

theorem full_unwind_reverse_order:
  assumes "length ls \<le> n"
  shows "\<exists>s0 s1 s2. MAKE_DESTRUCTOR_STACK (int n) = Inr s0 \<and> pushes ls s0 = Inr s1 \<and>
           END_SCOPE_AND_RETURN lineno s1 = Inr s2 \<and>
           executed s2 = rev ls \<and> next_label_address s2 = 0"
proof -
  let ?s0 = "\<lparr>destructor_label_addresses = replicate n None, return_label_address = None,
               next_label_address = 0, executed = []\<rparr> :: 'a frame"
  let ?s1 = "\<lparr>destructor_label_addresses = map Some ls @ replicate (n - length ls) None,
               return_label_address = None,
               next_label_address = int (length ls), executed = []\<rparr>"
  have "END_SCOPE_AND_RETURN lineno ?s1 =
          Inr (?s1\<lparr>return_label_address := Some lineno, next_label_address := int (length ([] :: 'a option list)),
                    executed := executed ?s1 @ rev ls\<rparr>)"
    unfolding END_SCOPE_AND_RETURN_def Let_def
    using END_SCOPE_pops [where s = ?s1 and pre = "[]" and js = ls
        and post = "replicate (n - length ls) None" and lineno = lineno]
    by simp
  then show ?thesis
    using pushes_fresh [OF assms] by (simp add: MAKE_DESTRUCTOR_STACK_nat)
qed

theorem full_unwind_reverse_order_witness:
  "\<exists>s0 s1 s2. MAKE_DESTRUCTOR_STACK (int 2) = Inr s0 \<and> pushes [CHR ''A'', CHR ''B''] s0 = Inr s1 \<and>
           END_SCOPE_AND_RETURN 57 s1 = Inr s2 \<and>
           executed s2 = [CHR ''B'', CHR ''A''] \<and> next_label_address s2 = 0"
  using full_unwind_reverse_order [of "[CHR ''A'', CHR ''B'']" 2 57] by simp

text \<open>
  Claim C2. \<open>K\<close> pushes (the labels \<open>ks\<close>), then \<^verbatim>\<open>BEGIN_SCOPE\<close>, then \<open>J\<close> more
  pushes (the labels \<open>js\<close>), then \<^verbatim>\<open>END_SCOPE\<close> with the variable that \<^verbatim>\<open>BEGIN_SCOPE\<close>
  set: all succeed when \<open>K + J\<close> is within the capacity; exactly the last \<open>J\<close> actions
  ran, in reverse order; the cursor is \<open>K\<close>; and the first \<open>K\<close> slots hold the first
  \<open>K\<close> labels as they did when the scope began, none of them run.
\<close>

theorem scoped_unwind_last_pushes:
  assumes "length ks + length js \<le> n"
  shows "\<exists>s0 s1 s2 s3. MAKE_DESTRUCTOR_STACK (int n) = Inr s0 \<and> pushes ks s0 = Inr s1 \<and>
           pushes js s1 = Inr s2 \<and> END_SCOPE lineno (BEGIN_SCOPE s1) s2 = Inr s3 \<and>
           executed s3 = rev js \<and> next_label_address s3 = int (length ks) \<and>
           take (length ks) (destructor_label_addresses s3) = map Some ks \<and>
           take (length ks) (destructor_label_addresses s1) = map Some ks"
proof -
  let ?s1 = "\<lparr>destructor_label_addresses = map Some ks @ replicate (n - length ks) None,
               return_label_address = None,
               next_label_address = int (length ks), executed = []\<rparr>"
  let ?post = "replicate (n - length (ks @ js)) None :: 'a option list"
  let ?s2 = "\<lparr>destructor_label_addresses = map Some (ks @ js) @ ?post,
               return_label_address = None,
               next_label_address = int (length (ks @ js)), executed = []\<rparr>"
  let ?s0 = "\<lparr>destructor_label_addresses = replicate n None, return_label_address = None,
               next_label_address = 0, executed = []\<rparr> :: 'a frame"
  have k: "length ks \<le> n" and kj: "length (ks @ js) \<le> n"
    using assms by simp_all
  have 1: "pushes ks ?s0 = Inr ?s1"
    by (rule pushes_fresh [OF k])
  have "pushes (ks @ js) ?s0 = Inr ?s2"
    by (rule pushes_fresh [OF kj])
  with 1 have 2: "pushes js ?s1 = Inr ?s2"
    by (simp add: pushes_append)
  have 3: "END_SCOPE lineno (BEGIN_SCOPE ?s1) ?s2 =
          Inr (?s2\<lparr>return_label_address := Some lineno, next_label_address := int (length (map Some ks)),
                    executed := executed ?s2 @ rev js\<rparr>)"
    using END_SCOPE_pops [where s = ?s2 and pre = "map Some ks" and js = js
        and post = ?post and lineno = lineno]
    by (simp add: BEGIN_SCOPE_def)
  show ?thesis
    using 1 2 3 by (simp add: MAKE_DESTRUCTOR_STACK_nat)
qed

theorem scoped_unwind_last_pushes_witness:
  "\<exists>s0 s1 s2 s3. MAKE_DESTRUCTOR_STACK (int 3) = Inr s0 \<and>
     pushes [CHR ''A'', CHR ''B''] s0 = Inr s1 \<and>
     pushes [CHR ''C''] s1 = Inr s2 \<and> END_SCOPE 40 (BEGIN_SCOPE s1) s2 = Inr s3 \<and>
     executed s3 = [CHR ''C''] \<and> next_label_address s3 = 2 \<and>
     take 2 (destructor_label_addresses s3) = [Some CHR ''A'', Some CHR ''B''] \<and>
     take 2 (destructor_label_addresses s1) = [Some CHR ''A'', Some CHR ''B'']"
  using scoped_unwind_last_pushes [of "[CHR ''A'', CHR ''B'']" "[CHR ''C'']" 3 40]
  by (simp add: numeral_2_eq_2)

text \<open>
  Claim C3. After the scoped unwind of C2 has put the cursor back to \<open>K\<close>, an
  \<^verbatim>\<open>END_SCOPE_AND_RETURN\<close> succeeds, runs exactly the remaining \<open>K\<close> actions in
  reverse order after those already run, and leaves the cursor at the start of the
  array. The macro overwrites the visible scope variable with
  \<^verbatim>\<open>destructor_label_addresses - 1\<close>, so the scope begun at \<open>K\<close> plays no part.
\<close>

theorem full_unwind_after_scoped_unwind:
  assumes "length ks + length js \<le> n"
  shows "\<exists>s0 s1 s2 s3 s4. MAKE_DESTRUCTOR_STACK (int n) = Inr s0 \<and> pushes ks s0 = Inr s1 \<and>
           pushes js s1 = Inr s2 \<and> END_SCOPE lineno (BEGIN_SCOPE s1) s2 = Inr s3 \<and>
           next_label_address s3 = int (length ks) \<and>
           END_SCOPE_AND_RETURN lineno' s3 = Inr s4 \<and>
           executed s4 = executed s3 @ rev ks \<and> next_label_address s4 = 0"
proof -
  let ?s1 = "\<lparr>destructor_label_addresses = map Some ks @ replicate (n - length ks) None,
               return_label_address = None,
               next_label_address = int (length ks), executed = []\<rparr>"
  let ?post = "replicate (n - length (ks @ js)) None :: 'a option list"
  let ?s2 = "\<lparr>destructor_label_addresses = map Some (ks @ js) @ ?post,
               return_label_address = None,
               next_label_address = int (length (ks @ js)), executed = []\<rparr>"
  let ?s0 = "\<lparr>destructor_label_addresses = replicate n None, return_label_address = None,
               next_label_address = 0, executed = []\<rparr> :: 'a frame"
  let ?s3 = "\<lparr>destructor_label_addresses = map Some ks @ map Some js @ ?post,
               return_label_address = Some lineno,
               next_label_address = int (length ks), executed = rev js\<rparr>"
  have k: "length ks \<le> n" and kj: "length (ks @ js) \<le> n"
    using assms by simp_all
  have 1: "pushes ks ?s0 = Inr ?s1"
    by (rule pushes_fresh [OF k])
  have "pushes (ks @ js) ?s0 = Inr ?s2"
    by (rule pushes_fresh [OF kj])
  with 1 have 2: "pushes js ?s1 = Inr ?s2"
    by (simp add: pushes_append)
  have 3: "END_SCOPE lineno (BEGIN_SCOPE ?s1) ?s2 = Inr ?s3"
    using END_SCOPE_pops [where s = ?s2 and pre = "map Some ks" and js = js
        and post = ?post and lineno = lineno]
    by (simp add: BEGIN_SCOPE_def)
  have 4: "END_SCOPE_AND_RETURN lineno' ?s3 =
      Inr (?s3\<lparr>return_label_address := Some lineno',
                next_label_address := int (length ([] :: 'a option list)),
                executed := executed ?s3 @ rev ks\<rparr>)"
    unfolding END_SCOPE_AND_RETURN_def Let_def
    using END_SCOPE_pops [where s = ?s3 and pre = "[]" and js = ks
        and post = "map Some js @ ?post" and lineno = lineno']
    by simp
  show ?thesis
    using 1 2 3 4 by (simp add: MAKE_DESTRUCTOR_STACK_nat)
qed

theorem full_unwind_after_scoped_unwind_witness:
  "\<exists>s0 s1 s2 s3 s4. MAKE_DESTRUCTOR_STACK (int 3) = Inr s0 \<and>
     pushes [CHR ''A'', CHR ''B''] s0 = Inr s1 \<and>
     pushes [CHR ''C''] s1 = Inr s2 \<and> END_SCOPE 40 (BEGIN_SCOPE s1) s2 = Inr s3 \<and>
     next_label_address s3 = 2 \<and>
     END_SCOPE_AND_RETURN 50 s3 = Inr s4 \<and>
     executed s4 = executed s3 @ [CHR ''B'', CHR ''A''] \<and> next_label_address s4 = 0"
  using full_unwind_after_scoped_unwind [of "[CHR ''A'', CHR ''B'']" "[CHR ''C'']" 3 40 50]
  by simp

section \<open>Pushing\<close>

text \<open>
  Claim C4. When the cursor equals the capacity, \<^verbatim>\<open>PUSH_DESTRUCTOR\<close> fails its
  second assertion: the program aborts before the store, so no slot is written.
  When the cursor is a position of the array below the capacity, no assertion
  fires, the label is stored in the slot at the cursor, every other slot keeps its
  content (the array is updated at that one index) and the cursor moves up by one.
\<close>

theorem push_checks_capacity:
  "(next_label_address s = capacity s \<longrightarrow> PUSH_DESTRUCTOR l s = Inl AssertionFailed) \<and>
   (0 \<le> next_label_address s \<and> next_label_address s < capacity s \<longrightarrow>
      PUSH_DESTRUCTOR l s =
        Inr (s\<lparr>destructor_label_addresses :=
                  (destructor_label_addresses s)[nat (next_label_address s) := Some l],
                next_label_address := next_label_address s + 1\<rparr>))"
  by (simp add: PUSH_DESTRUCTOR_def capacity_def)

theorem push_checks_capacity_witness:
  "(next_label_address \<lparr>destructor_label_addresses = [Some (1::nat), None], return_label_address = None,
       next_label_address = 1, executed = []\<rparr> < 2 \<and>
    PUSH_DESTRUCTOR 2 \<lparr>destructor_label_addresses = [Some (1::nat), None], return_label_address = None,
       next_label_address = 1, executed = []\<rparr> =
      Inr \<lparr>destructor_label_addresses = [Some 1, Some 2], return_label_address = None,
       next_label_address = 2, executed = []\<rparr>) \<and>
   PUSH_DESTRUCTOR 3 \<lparr>destructor_label_addresses = [Some (1::nat), Some 2], return_label_address = None,
       next_label_address = 2, executed = []\<rparr> = Inl AssertionFailed"
  using push_checks_capacity [of "\<lparr>destructor_label_addresses = [Some (1::nat), None], return_label_address = None,
       next_label_address = 1, executed = []\<rparr>" 2]
    push_checks_capacity [of "\<lparr>destructor_label_addresses = [Some (1::nat), Some 2], return_label_address = None,
       next_label_address = 2, executed = []\<rparr>" 3]
  by (simp add: capacity_def)

section \<open>Unwinding with a marker that is not pending\<close>

text \<open>
  Claim C5, as stated, does not hold: unwinding twice to the same scope variable is
  not fatal. After \<^verbatim>\<open>MAKE_DESTRUCTOR_STACK(2)\<close>, a push of \<open>A\<close>, \<^verbatim>\<open>BEGIN_SCOPE\<close>
  (the variable is set to \<open>0\<close>), a push of \<open>B\<close> and \<^verbatim>\<open>END_SCOPE\<close>, a second
  \<^verbatim>\<open>END_SCOPE\<close> with the same variable passes the assertion of line 36
  (\<open>0 < 1\<close>), finds \<^verbatim>\<open>next_label_address - 1\<close> equal to the variable and returns
  without running anything.
\<close>

theorem double_unwind_not_fatal:
  "MAKE_DESTRUCTOR_STACK 2 =
     Inr \<lparr>destructor_label_addresses = [None, None], return_label_address = None,
          next_label_address = 0, executed = []\<rparr> \<and>
   run [Push CHR ''A'']
       \<lparr>destructor_label_addresses = [None, None], return_label_address = None,
        next_label_address = 0, executed = []\<rparr> =
     Inr \<lparr>destructor_label_addresses = [Some CHR ''A'', None], return_label_address = None,
          next_label_address = 1, executed = []\<rparr> \<and>
   BEGIN_SCOPE \<lparr>destructor_label_addresses = [Some CHR ''A'', None], return_label_address = None,
          next_label_address = 1, executed = []\<rparr> = 0 \<and>
   run [Push CHR ''B'', UnwindToMarker 10 0]
       \<lparr>destructor_label_addresses = [Some CHR ''A'', None], return_label_address = None,
        next_label_address = 1, executed = []\<rparr> =
     Inr \<lparr>destructor_label_addresses = [Some CHR ''A'', Some CHR ''B''],
          return_label_address = Some 10, next_label_address = 1, executed = [CHR ''B'']\<rparr> \<and>
   END_SCOPE 11 0
       \<lparr>destructor_label_addresses = [Some CHR ''A'', Some CHR ''B''],
        return_label_address = Some 10, next_label_address = 1, executed = [CHR ''B'']\<rparr> =
     Inr \<lparr>destructor_label_addresses = [Some CHR ''A'', Some CHR ''B''],
          return_label_address = Some 11, next_label_address = 1, executed = [CHR ''B'']\<rparr>"
  by (simp add: MAKE_DESTRUCTOR_STACK_def PUSH_DESTRUCTOR_def capacity_def BEGIN_SCOPE_def
      END_SCOPE_def return_label.simps destructor_def deref_def numeral_2_eq_2)

text \<open>
  Claim C5, amended. \<^verbatim>\<open>END_SCOPE\<close> aborts by the assertion of line 36 whenever the
  cursor is at or below the scope variable, that is, strictly below the position
  at which the scope began; and an \<^verbatim>\<open>END_SCOPE\<close> that follows a successful
  \<^verbatim>\<open>END_SCOPE\<close> with the same scope variable does not abort: it only sets the
  return label, runs no destructor body and leaves the cursor where it is.
\<close>

theorem unwind_below_marker_fatal_double_unwind_noop:
  "(next_label_address s \<le> e \<longrightarrow> END_SCOPE lineno e s = Inl AssertionFailed) \<and>
   (END_SCOPE lineno e s = Inr s' \<longrightarrow>
      END_SCOPE lineno' e s' = Inr (s'\<lparr>return_label_address := Some lineno'\<rparr>))"
proof (rule conjI; rule impI)
  assume "next_label_address s \<le> e"
  then show "END_SCOPE lineno e s = Inl AssertionFailed"
    by (simp add: END_SCOPE_def return_label_below)
next
  assume "END_SCOPE lineno e s = Inr s'"
  then have "next_label_address s' = e + 1"
    by (rule END_SCOPE_Inr)
  then show "END_SCOPE lineno' e s' = Inr (s'\<lparr>return_label_address := Some lineno'\<rparr>)"
    by (simp add: END_SCOPE_def return_label_done)
qed

theorem unwind_below_marker_fatal_double_unwind_noop_witness:
  "next_label_address \<lparr>destructor_label_addresses = [Some CHR ''A'', Some CHR ''B''], return_label_address = Some 11,
       next_label_address = 0, executed = [CHR ''B'', CHR ''A'']\<rparr> \<le> 1 \<and>
   END_SCOPE 12 1 \<lparr>destructor_label_addresses = [Some CHR ''A'', Some CHR ''B''], return_label_address = Some 11,
       next_label_address = 0, executed = [CHR ''B'', CHR ''A'']\<rparr> = Inl AssertionFailed \<and>
   END_SCOPE 10 0 \<lparr>destructor_label_addresses = [Some CHR ''A'', Some CHR ''B''], return_label_address = None,
       next_label_address = 2, executed = []\<rparr> =
     Inr \<lparr>destructor_label_addresses = [Some CHR ''A'', Some CHR ''B''], return_label_address = Some 10,
       next_label_address = 1, executed = [CHR ''B'']\<rparr> \<and>
   END_SCOPE 11 0 \<lparr>destructor_label_addresses = [Some CHR ''A'', Some CHR ''B''], return_label_address = Some 10,
       next_label_address = 1, executed = [CHR ''B'']\<rparr> =
     Inr \<lparr>destructor_label_addresses = [Some CHR ''A'', Some CHR ''B''], return_label_address = Some 11,
       next_label_address = 1, executed = [CHR ''B'']\<rparr>"
proof -
  have low: "next_label_address \<lparr>destructor_label_addresses = [Some CHR ''A'', Some CHR ''B''], return_label_address = Some 11,
       next_label_address = 0, executed = [CHR ''B'', CHR ''A'']\<rparr> \<le> 1"
    by simp
  have first: "END_SCOPE 10 0 \<lparr>destructor_label_addresses = [Some CHR ''A'', Some CHR ''B''], return_label_address = None,
       next_label_address = 2, executed = []\<rparr> =
     Inr \<lparr>destructor_label_addresses = [Some CHR ''A'', Some CHR ''B''], return_label_address = Some 10,
       next_label_address = 1, executed = [CHR ''B'']\<rparr>"
    by (simp add: END_SCOPE_def return_label.simps destructor_def deref_def)
  show ?thesis
    using low first
      unwind_below_marker_fatal_double_unwind_noop [of "\<lparr>destructor_label_addresses = [Some CHR ''A'', Some CHR ''B''], return_label_address = Some 11,
       next_label_address = 0, executed = [CHR ''B'', CHR ''A'']\<rparr>" 1 12]
      unwind_below_marker_fatal_double_unwind_noop [of "\<lparr>destructor_label_addresses = [Some CHR ''A'', Some CHR ''B''], return_label_address = None,
       next_label_address = 2, executed = []\<rparr>" 0 10
        "\<lparr>destructor_label_addresses = [Some CHR ''A'', Some CHR ''B''], return_label_address = Some 10,
       next_label_address = 1, executed = [CHR ''B'']\<rparr>" 11]
    by simp
qed

section \<open>The cursor stays inside the array\<close>

text \<open>
  Claim C6. After \<^verbatim>\<open>MAKE_DESTRUCTOR_STACK(n)\<close> and any sequence of pushes, scope
  beginnings and unwinds (with any values of the scope variable) that does not
  abort, the cursor is between \<open>0\<close> and the capacity, and the capacity is still
  \<open>n\<close>; and each single operation that does not abort keeps a cursor that is
  between \<open>0\<close> and the capacity between \<open>0\<close> and the capacity.
\<close>

theorem cursor_stays_in_range:
  "(MAKE_DESTRUCTOR_STACK n = Inr s0 \<and> run xs s0 = Inr s' \<longrightarrow>
      0 \<le> next_label_address s' \<and> next_label_address s' \<le> capacity s' \<and> capacity s' = n) \<and>
   (0 \<le> next_label_address s \<and> next_label_address s \<le> capacity s \<and> step x s = Inr s' \<longrightarrow>
      0 \<le> next_label_address s' \<and> next_label_address s' \<le> capacity s')"
proof (rule conjI; rule impI)
  assume a: "MAKE_DESTRUCTOR_STACK n = Inr s0 \<and> run xs s0 = Inr s'"
  then have "0 \<le> next_label_address s0 \<and> next_label_address s0 \<le> capacity s0 \<and> capacity s0 = n"
    by (auto simp: MAKE_DESTRUCTOR_STACK_def capacity_def split: if_splits)
  with a run_cursor_in_range [of xs s0 s']
  show "0 \<le> next_label_address s' \<and> next_label_address s' \<le> capacity s' \<and> capacity s' = n"
    by simp
next
  assume "0 \<le> next_label_address s \<and> next_label_address s \<le> capacity s \<and> step x s = Inr s'"
  with step_cursor_in_range [of x s s']
  show "0 \<le> next_label_address s' \<and> next_label_address s' \<le> capacity s'"
    by simp
qed

theorem cursor_stays_in_range_witness:
  "MAKE_DESTRUCTOR_STACK 2 =
     Inr \<lparr>destructor_label_addresses = [None, None :: char option], return_label_address = None,
       next_label_address = 0, executed = []\<rparr> \<and>
   run [Push CHR ''A'', MarkScope, Push CHR ''B'', UnwindToMarker 10 0, Push CHR ''C'', UnwindAll 11]
     \<lparr>destructor_label_addresses = [None, None :: char option], return_label_address = None,
       next_label_address = 0, executed = []\<rparr> =
     Inr \<lparr>destructor_label_addresses = [Some CHR ''A'', Some CHR ''C''], return_label_address = Some 11,
       next_label_address = 0, executed = [CHR ''B'', CHR ''C'', CHR ''A'']\<rparr> \<and>
   0 \<le> next_label_address \<lparr>destructor_label_addresses = [Some CHR ''A'', Some CHR ''C''], return_label_address = Some 11,
       next_label_address = 0, executed = [CHR ''B'', CHR ''C'', CHR ''A'']\<rparr> \<and>
   next_label_address \<lparr>destructor_label_addresses = [Some CHR ''A'', Some CHR ''C''], return_label_address = Some 11,
       next_label_address = 0, executed = [CHR ''B'', CHR ''C'', CHR ''A'']\<rparr> \<le> capacity \<lparr>destructor_label_addresses = [Some CHR ''A'', Some CHR ''C''], return_label_address = Some 11,
       next_label_address = 0, executed = [CHR ''B'', CHR ''C'', CHR ''A'']\<rparr> \<and>
   capacity \<lparr>destructor_label_addresses = [Some CHR ''A'', Some CHR ''C''], return_label_address = Some 11,
       next_label_address = 0, executed = [CHR ''B'', CHR ''C'', CHR ''A'']\<rparr> = 2 \<and>
   step (Push CHR ''B'') \<lparr>destructor_label_addresses = [Some CHR ''A'', None], return_label_address = None,
       next_label_address = 1, executed = []\<rparr> =
     Inr \<lparr>destructor_label_addresses = [Some CHR ''A'', Some CHR ''B''], return_label_address = None,
       next_label_address = 2, executed = []\<rparr> \<and>
   next_label_address \<lparr>destructor_label_addresses = [Some CHR ''A'', Some CHR ''B''], return_label_address = None,
       next_label_address = 2, executed = []\<rparr> \<le> capacity \<lparr>destructor_label_addresses = [Some CHR ''A'', Some CHR ''B''], return_label_address = None,
       next_label_address = 2, executed = []\<rparr>"
proof -
  have mk: "MAKE_DESTRUCTOR_STACK 2 =
     Inr \<lparr>destructor_label_addresses = [None, None :: char option], return_label_address = None,
       next_label_address = 0, executed = []\<rparr>"
    by (simp add: MAKE_DESTRUCTOR_STACK_def numeral_2_eq_2)
  have rn: "run [Push CHR ''A'', MarkScope, Push CHR ''B'', UnwindToMarker 10 0, Push CHR ''C'', UnwindAll 11]
     \<lparr>destructor_label_addresses = [None, None :: char option], return_label_address = None,
       next_label_address = 0, executed = []\<rparr> =
     Inr \<lparr>destructor_label_addresses = [Some CHR ''A'', Some CHR ''C''], return_label_address = Some 11,
       next_label_address = 0, executed = [CHR ''B'', CHR ''C'', CHR ''A'']\<rparr>"
    by (simp add: MAKE_DESTRUCTOR_STACK_def PUSH_DESTRUCTOR_def capacity_def BEGIN_SCOPE_def
      END_SCOPE_def END_SCOPE_AND_BREAK_def END_SCOPE_AND_RETURN_def return_label.simps destructor_def
      deref_def numeral_2_eq_2)
  have st: "step (Push CHR ''B'') \<lparr>destructor_label_addresses = [Some CHR ''A'', None], return_label_address = None,
       next_label_address = 1, executed = []\<rparr> =
     Inr \<lparr>destructor_label_addresses = [Some CHR ''A'', Some CHR ''B''], return_label_address = None,
       next_label_address = 2, executed = []\<rparr>"
    by (simp add: PUSH_DESTRUCTOR_def capacity_def)
  have r1: "0 \<le> next_label_address \<lparr>destructor_label_addresses = [Some CHR ''A'', None], return_label_address = None,
       next_label_address = 1, executed = []\<rparr> \<and>
      next_label_address \<lparr>destructor_label_addresses = [Some CHR ''A'', None], return_label_address = None,
       next_label_address = 1, executed = []\<rparr> \<le> capacity \<lparr>destructor_label_addresses = [Some CHR ''A'', None], return_label_address = None,
       next_label_address = 1, executed = []\<rparr>"
    by (simp add: capacity_def)
  show ?thesis
    using mk rn st r1
      cursor_stays_in_range [of 2 "\<lparr>destructor_label_addresses = [None, None :: char option], return_label_address = None,
       next_label_address = 0, executed = []\<rparr>" "[Push CHR ''A'', MarkScope, Push CHR ''B'', UnwindToMarker 10 0, Push CHR ''C'', UnwindAll 11]"
        "\<lparr>destructor_label_addresses = [Some CHR ''A'', Some CHR ''C''], return_label_address = Some 11,
       next_label_address = 0, executed = [CHR ''B'', CHR ''C'', CHR ''A'']\<rparr>"]
      cursor_stays_in_range [of _ _ _ "\<lparr>destructor_label_addresses = [Some CHR ''A'', Some CHR ''B''], return_label_address = None,
       next_label_address = 2, executed = []\<rparr>"
        "\<lparr>destructor_label_addresses = [Some CHR ''A'', None], return_label_address = None,
       next_label_address = 1, executed = []\<rparr>" "Push CHR ''B''"]
    by simp
qed

section \<open>Unwinding an empty stack\<close>

text \<open>
  Claim C7. With the cursor at the start of the array, \<^verbatim>\<open>END_SCOPE_AND_RETURN\<close>
  does not abort and runs no destructor body: the frame it returns differs from
  the one it was given in the return label only.
\<close>

theorem unwind_all_empty_noop:
  assumes "next_label_address s = 0"
  shows "END_SCOPE_AND_RETURN lineno s = Inr (s\<lparr>return_label_address := Some lineno\<rparr>)"
  using assms by (simp add: END_SCOPE_AND_RETURN_def END_SCOPE_def return_label_done)

theorem unwind_all_empty_noop_witness:
  "END_SCOPE_AND_RETURN 46 \<lparr>destructor_label_addresses = [None, None :: nat option],
       return_label_address = None, next_label_address = 0, executed = []\<rparr> =
     Inr \<lparr>destructor_label_addresses = [None, None],
       return_label_address = Some 46, next_label_address = 0, executed = []\<rparr>"
  using unwind_all_empty_noop [of "\<lparr>destructor_label_addresses = [None, None :: nat option],
       return_label_address = None, next_label_address = 0, executed = []\<rparr>" 46]
  by simp

section \<open>Creating the stack\<close>

text \<open>
  Claim C8, as stated, does not hold: \<^verbatim>\<open>MAKE_DESTRUCTOR_STACK\<close> contains no check of
  its argument, so a negative length is not reported by a failed assertion.
\<close>

theorem make_negative_capacity_not_asserted:
  "(MAKE_DESTRUCTOR_STACK (- 1) :: failure + nat frame) = Inl UndefinedBehaviour \<and>
   (MAKE_DESTRUCTOR_STACK (- 1) :: failure + nat frame) \<noteq> Inl AssertionFailed"
  by (simp add: MAKE_DESTRUCTOR_STACK_def)

text \<open>
  Claim C8, amended. For every \<open>n \<ge> 0\<close>, \<^verbatim>\<open>MAKE_DESTRUCTOR_STACK(n)\<close> gives an array
  of exactly \<open>n\<close> slots, none of them written, a NULL return label and the cursor
  at the start of the array; and for no \<open>n\<close> at all does the macro fail an
  assertion.
\<close>

theorem make_allocates_without_check:
  "(0 \<le> n \<longrightarrow>
      (MAKE_DESTRUCTOR_STACK n :: failure + 'l frame) =
        Inr \<lparr>destructor_label_addresses = replicate (nat n) None, return_label_address = None,
             next_label_address = 0, executed = []\<rparr>) \<and>
   (MAKE_DESTRUCTOR_STACK n :: failure + 'l frame) \<noteq> Inl AssertionFailed"
  by (simp add: MAKE_DESTRUCTOR_STACK_def)

theorem make_allocates_without_check_witness:
  "(0::int) \<le> 3 \<and>
   (MAKE_DESTRUCTOR_STACK 3 :: failure + nat frame) =
        Inr \<lparr>destructor_label_addresses = [None, None, None], return_label_address = None,
             next_label_address = 0, executed = []\<rparr>"
  using make_allocates_without_check [where ?'l = nat and n = 3]
  by (simp add: numeral_3_eq_3)

section \<open>When destructor bodies run\<close>

text \<open>
  Claim C9. A \<^verbatim>\<open>PUSH_DESTRUCTOR\<close> that does not abort leaves the list of bodies that
  have run as it was: the body is jumped over. An \<^verbatim>\<open>END_SCOPE\<close>,
  \<^verbatim>\<open>END_SCOPE_AND_BREAK\<close> or \<^verbatim>\<open>END_SCOPE_AND_RETURN\<close> that does not abort runs
  exactly the bodies whose labels it pops: the labels \<open>ls\<close> held by the slots from
  the new cursor up to the old cursor, last slot first.
\<close>

theorem push_runs_nothing_unwind_runs_popped:
  "(PUSH_DESTRUCTOR l s = Inr s' \<longrightarrow> executed s' = executed s) \<and>
   (END_SCOPE lineno e s = Inr s' \<or> END_SCOPE_AND_BREAK lineno e s = Inr s' \<or>
    END_SCOPE_AND_RETURN lineno s = Inr s' \<longrightarrow>
      (\<exists>ls. executed s' = executed s @ rev ls \<and>
            next_label_address s = next_label_address s' + int (length ls) \<and>
            take (length ls) (drop (nat (next_label_address s')) (destructor_label_addresses s))
              = map Some ls))"
proof (rule conjI; rule impI)
  assume "PUSH_DESTRUCTOR l s = Inr s'"
  then show "executed s' = executed s"
    by (auto simp: PUSH_DESTRUCTOR_def split: if_splits)
next
  assume "END_SCOPE lineno e s = Inr s' \<or> END_SCOPE_AND_BREAK lineno e s = Inr s' \<or>
    END_SCOPE_AND_RETURN lineno s = Inr s'"
  then obtain e' where "END_SCOPE lineno e' s = Inr s'"
    by (auto simp: END_SCOPE_AND_BREAK_def END_SCOPE_AND_RETURN_def)
  from END_SCOPE_Inr(4) [OF this]
  show "\<exists>ls. executed s' = executed s @ rev ls \<and>
            next_label_address s = next_label_address s' + int (length ls) \<and>
            take (length ls) (drop (nat (next_label_address s')) (destructor_label_addresses s))
              = map Some ls"
    by blast
qed

theorem push_runs_nothing_unwind_runs_popped_witness:
  "PUSH_DESTRUCTOR CHR ''B'' \<lparr>destructor_label_addresses = [Some CHR ''A'', None], return_label_address = None,
       next_label_address = 1, executed = []\<rparr> =
     Inr \<lparr>destructor_label_addresses = [Some CHR ''A'', Some CHR ''B''], return_label_address = None,
       next_label_address = 2, executed = []\<rparr> \<and>
   executed \<lparr>destructor_label_addresses = [Some CHR ''A'', Some CHR ''B''], return_label_address = None,
       next_label_address = 2, executed = []\<rparr> = executed \<lparr>destructor_label_addresses = [Some CHR ''A'', None], return_label_address = None,
       next_label_address = 1, executed = []\<rparr> \<and>
   END_SCOPE 10 0 \<lparr>destructor_label_addresses = [Some CHR ''A'', Some CHR ''B''], return_label_address = None,
       next_label_address = 2, executed = []\<rparr> =
     Inr \<lparr>destructor_label_addresses = [Some CHR ''A'', Some CHR ''B''], return_label_address = Some 10,
       next_label_address = 1, executed = [CHR ''B'']\<rparr> \<and>
   (\<exists>ls. [CHR ''B''] = [] @ rev ls \<and> 2 = 1 + int (length ls) \<and>
      take (length ls) (drop (nat 1) [Some CHR ''A'', Some CHR ''B'']) = map Some ls)"
proof -
  have ps: "PUSH_DESTRUCTOR CHR ''B'' \<lparr>destructor_label_addresses = [Some CHR ''A'', None], return_label_address = None,
       next_label_address = 1, executed = []\<rparr> =
     Inr \<lparr>destructor_label_addresses = [Some CHR ''A'', Some CHR ''B''], return_label_address = None,
       next_label_address = 2, executed = []\<rparr>"
    by (simp add: PUSH_DESTRUCTOR_def capacity_def)
  have es: "END_SCOPE 10 0 \<lparr>destructor_label_addresses = [Some CHR ''A'', Some CHR ''B''], return_label_address = None,
       next_label_address = 2, executed = []\<rparr> =
     Inr \<lparr>destructor_label_addresses = [Some CHR ''A'', Some CHR ''B''], return_label_address = Some 10,
       next_label_address = 1, executed = [CHR ''B'']\<rparr>"
    by (simp add: END_SCOPE_def return_label.simps destructor_def deref_def)
  show ?thesis
    using ps es
      push_runs_nothing_unwind_runs_popped [of "CHR ''B''" "\<lparr>destructor_label_addresses = [Some CHR ''A'', None], return_label_address = None,
       next_label_address = 1, executed = []\<rparr>"
        "\<lparr>destructor_label_addresses = [Some CHR ''A'', Some CHR ''B''], return_label_address = None,
       next_label_address = 2, executed = []\<rparr>" 10 0]
      push_runs_nothing_unwind_runs_popped [of "CHR ''B''" "\<lparr>destructor_label_addresses = [Some CHR ''A'', Some CHR ''B''], return_label_address = None,
       next_label_address = 2, executed = []\<rparr>"
        "\<lparr>destructor_label_addresses = [Some CHR ''A'', Some CHR ''B''], return_label_address = Some 10,
       next_label_address = 1, executed = [CHR ''B'']\<rparr>" 10 0]
    by simp
qed

section \<open>Reuse of vacated slots\<close>

text \<open>
  Claim C10. Take any sequence of pushes, scope beginnings and unwinds, with any
  labels (the same label may be pushed again and again, as by a
  \<^verbatim>\<open>PUSH_DESTRUCTOR\<close> line in a loop) and any values of the scope variable, run from
  \<^verbatim>\<open>MAKE_DESTRUCTOR_STACK\<close> without abort. Then the labels in the slots below the
  cursor together with the bodies that have run are, counted with multiplicity,
  exactly the labels pushed: every push is either still pending or has run once,
  so an entry that was unwound is never run again by a later unwind. If the
  sequence ends with \<^verbatim>\<open>END_SCOPE_AND_RETURN\<close>, nothing is pending and the bodies
  that have run are exactly the labels pushed, each as often as it was pushed.
  And after an \<^verbatim>\<open>END_SCOPE\<close> that popped at least one entry, the slot at the
  restored cursor still holds the label that was run last; the next
  \<^verbatim>\<open>PUSH_DESTRUCTOR\<close> succeeds and stores its label in that very slot.
\<close>

theorem vacated_slots_reused_no_rerun:
  "(MAKE_DESTRUCTOR_STACK n = Inr s0 \<and> run xs s0 = Inr s' \<longrightarrow>
      (\<exists>pend. take (nat (next_label_address s')) (destructor_label_addresses s') = map Some pend \<and>
             mset pend + mset (executed s') = mset (pushed xs))) \<and>
   (MAKE_DESTRUCTOR_STACK n = Inr s0 \<and> run (xs @ [UnwindAll lineno']) s0 = Inr s'' \<longrightarrow>
      next_label_address s'' = 0 \<and> mset (executed s'') = mset (pushed xs)) \<and>
   (END_SCOPE lineno e s = Inr s1 \<and> next_label_address s1 < next_label_address s \<longrightarrow>
      deref (destructor_label_addresses s1) (next_label_address s1) = Some (last (executed s1)) \<and>
      (\<exists>s2. PUSH_DESTRUCTOR l s1 = Inr s2 \<and>
            next_label_address s2 = next_label_address s1 + 1 \<and>
            deref (destructor_label_addresses s2) (next_label_address s1) = Some l))"
proof (rule conjI; (rule conjI)?; rule impI)
  assume "MAKE_DESTRUCTOR_STACK n = Inr s0 \<and> run xs s0 = Inr s'"
  then show "\<exists>pend. take (nat (next_label_address s')) (destructor_label_addresses s') = map Some pend \<and>
             mset pend + mset (executed s') = mset (pushed xs)"
    using fresh_run_accounts_for_pushes [of n s0 xs s'] by simp
next
  assume a: "MAKE_DESTRUCTOR_STACK n = Inr s0 \<and> run (xs @ [UnwindAll lineno']) s0 = Inr s''"
  then obtain t where t: "run xs s0 = Inr t" and u: "END_SCOPE lineno' (0 - 1) t = Inr s''"
    by (auto simp: run_append END_SCOPE_AND_RETURN_def Let_def split: sum.splits)
  from END_SCOPE_Inr(1) [OF u] have z: "next_label_address s'' = 0"
    by simp
  from fresh_run_accounts_for_pushes [of n s0 "xs @ [UnwindAll lineno']" s''] a z
  have "mset (executed s'') = mset (pushed (xs @ [UnwindAll lineno']))"
    by auto
  with z show "next_label_address s'' = 0 \<and> mset (executed s'') = mset (pushed xs)"
    by (simp add: pushed_append)
next
  assume a: "END_SCOPE lineno e s = Inr s1 \<and> next_label_address s1 < next_label_address s"
  from END_SCOPE_then_PUSH [of lineno e s s1 l] a
  show "deref (destructor_label_addresses s1) (next_label_address s1) = Some (last (executed s1)) \<and>
      (\<exists>s2. PUSH_DESTRUCTOR l s1 = Inr s2 \<and>
            next_label_address s2 = next_label_address s1 + 1 \<and>
            deref (destructor_label_addresses s2) (next_label_address s1) = Some l)"
    by simp
qed

theorem vacated_slots_reused_no_rerun_witness:
  "MAKE_DESTRUCTOR_STACK 2 =
     Inr \<lparr>destructor_label_addresses = [None, None :: char option], return_label_address = None,
       next_label_address = 0, executed = []\<rparr> \<and>
   run [Push CHR ''A'', MarkScope, Push CHR ''B'', UnwindToMarker 10 0, MarkScope, Push CHR ''B'',
        UnwindToMarker 11 0]
     \<lparr>destructor_label_addresses = [None, None :: char option], return_label_address = None,
       next_label_address = 0, executed = []\<rparr> =
     Inr \<lparr>destructor_label_addresses = [Some CHR ''A'', Some CHR ''B''], return_label_address = Some 11,
       next_label_address = 1, executed = [CHR ''B'', CHR ''B'']\<rparr> \<and>
   (\<exists>pend. take (nat (next_label_address \<lparr>destructor_label_addresses = [Some CHR ''A'', Some CHR ''B''], return_label_address = Some 11,
       next_label_address = 1, executed = [CHR ''B'', CHR ''B'']\<rparr>))
       (destructor_label_addresses \<lparr>destructor_label_addresses = [Some CHR ''A'', Some CHR ''B''], return_label_address = Some 11,
       next_label_address = 1, executed = [CHR ''B'', CHR ''B'']\<rparr>) = map Some pend \<and>
      mset pend + mset (executed \<lparr>destructor_label_addresses = [Some CHR ''A'', Some CHR ''B''], return_label_address = Some 11,
       next_label_address = 1, executed = [CHR ''B'', CHR ''B'']\<rparr>) =
        mset (pushed [Push CHR ''A'', MarkScope, Push CHR ''B'', UnwindToMarker 10 0, MarkScope, Push CHR ''B'',
        UnwindToMarker 11 0])) \<and>
   run ([Push CHR ''A'', MarkScope, Push CHR ''B'', UnwindToMarker 10 0, MarkScope, Push CHR ''B'',
        UnwindToMarker 11 0] @ [UnwindAll 12])
     \<lparr>destructor_label_addresses = [None, None :: char option], return_label_address = None,
       next_label_address = 0, executed = []\<rparr> =
     Inr \<lparr>destructor_label_addresses = [Some CHR ''A'', Some CHR ''B''], return_label_address = Some 12,
       next_label_address = 0, executed = [CHR ''B'', CHR ''B'', CHR ''A'']\<rparr> \<and>
   mset [CHR ''B'', CHR ''B'', CHR ''A''] = mset [CHR ''A'', CHR ''B'', CHR ''B''] \<and>
   END_SCOPE 10 0 \<lparr>destructor_label_addresses = [Some CHR ''A'', Some CHR ''B''], return_label_address = None,
       next_label_address = 2, executed = []\<rparr> =
     Inr \<lparr>destructor_label_addresses = [Some CHR ''A'', Some CHR ''B''], return_label_address = Some 10,
       next_label_address = 1, executed = [CHR ''B'']\<rparr> \<and>
   deref [Some CHR ''A'', Some CHR ''B''] 1 = Some CHR ''B'' \<and>
   PUSH_DESTRUCTOR CHR ''C'' \<lparr>destructor_label_addresses = [Some CHR ''A'', Some CHR ''B''], return_label_address = Some 10,
       next_label_address = 1, executed = [CHR ''B'']\<rparr> =
     Inr \<lparr>destructor_label_addresses = [Some CHR ''A'', Some CHR ''C''], return_label_address = Some 10,
       next_label_address = 2, executed = [CHR ''B'']\<rparr> \<and>
   deref [Some CHR ''A'', Some CHR ''C''] 1 = Some CHR ''C''"
proof -
  have mk: "MAKE_DESTRUCTOR_STACK 2 =
     Inr \<lparr>destructor_label_addresses = [None, None :: char option], return_label_address = None,
       next_label_address = 0, executed = []\<rparr>"
    by (simp add: MAKE_DESTRUCTOR_STACK_def numeral_2_eq_2)
  have rn: "run [Push CHR ''A'', MarkScope, Push CHR ''B'', UnwindToMarker 10 0, MarkScope, Push CHR ''B'',
        UnwindToMarker 11 0]
     \<lparr>destructor_label_addresses = [None, None :: char option], return_label_address = None,
       next_label_address = 0, executed = []\<rparr> =
     Inr \<lparr>destructor_label_addresses = [Some CHR ''A'', Some CHR ''B''], return_label_address = Some 11,
       next_label_address = 1, executed = [CHR ''B'', CHR ''B'']\<rparr>"
    by (simp add: MAKE_DESTRUCTOR_STACK_def PUSH_DESTRUCTOR_def capacity_def BEGIN_SCOPE_def
      END_SCOPE_def END_SCOPE_AND_BREAK_def END_SCOPE_AND_RETURN_def return_label.simps destructor_def
      deref_def numeral_2_eq_2)
  have rz: "run ([Push CHR ''A'', MarkScope, Push CHR ''B'', UnwindToMarker 10 0, MarkScope, Push CHR ''B'',
        UnwindToMarker 11 0] @ [UnwindAll 12])
     \<lparr>destructor_label_addresses = [None, None :: char option], return_label_address = None,
       next_label_address = 0, executed = []\<rparr> =
     Inr \<lparr>destructor_label_addresses = [Some CHR ''A'', Some CHR ''B''], return_label_address = Some 12,
       next_label_address = 0, executed = [CHR ''B'', CHR ''B'', CHR ''A'']\<rparr>"
    by (simp add: MAKE_DESTRUCTOR_STACK_def PUSH_DESTRUCTOR_def capacity_def BEGIN_SCOPE_def
      END_SCOPE_def END_SCOPE_AND_BREAK_def END_SCOPE_AND_RETURN_def return_label.simps destructor_def
      deref_def numeral_2_eq_2)
  have es: "END_SCOPE 10 0 \<lparr>destructor_label_addresses = [Some CHR ''A'', Some CHR ''B''], return_label_address = None,
       next_label_address = 2, executed = []\<rparr> =
     Inr \<lparr>destructor_label_addresses = [Some CHR ''A'', Some CHR ''B''], return_label_address = Some 10,
       next_label_address = 1, executed = [CHR ''B'']\<rparr>"
    by (simp add: END_SCOPE_def return_label.simps destructor_def deref_def)
  have ps: "PUSH_DESTRUCTOR CHR ''C'' \<lparr>destructor_label_addresses = [Some CHR ''A'', Some CHR ''B''], return_label_address = Some 10,
       next_label_address = 1, executed = [CHR ''B'']\<rparr> =
     Inr \<lparr>destructor_label_addresses = [Some CHR ''A'', Some CHR ''C''], return_label_address = Some 10,
       next_label_address = 2, executed = [CHR ''B'']\<rparr>"
    by (simp add: PUSH_DESTRUCTOR_def capacity_def)
  have lt: "next_label_address \<lparr>destructor_label_addresses = [Some CHR ''A'', Some CHR ''B''], return_label_address = Some 10,
       next_label_address = 1, executed = [CHR ''B'']\<rparr>
      < next_label_address \<lparr>destructor_label_addresses = [Some CHR ''A'', Some CHR ''B''], return_label_address = None,
       next_label_address = 2, executed = []\<rparr>"
    by simp
  note inst = vacated_slots_reused_no_rerun [where n = 2
      and ?s0.0 = "\<lparr>destructor_label_addresses = [None, None :: char option], return_label_address = None,
       next_label_address = 0, executed = []\<rparr>"
      and xs = "[Push CHR ''A'', MarkScope, Push CHR ''B'', UnwindToMarker 10 0, MarkScope, Push CHR ''B'',
        UnwindToMarker 11 0]"
      and s' = "\<lparr>destructor_label_addresses = [Some CHR ''A'', Some CHR ''B''], return_label_address = Some 11,
       next_label_address = 1, executed = [CHR ''B'', CHR ''B'']\<rparr>"
      and lineno' = 12
      and s'' = "\<lparr>destructor_label_addresses = [Some CHR ''A'', Some CHR ''B''], return_label_address = Some 12,
       next_label_address = 0, executed = [CHR ''B'', CHR ''B'', CHR ''A'']\<rparr>"
      and lineno = 10 and e = 0
      and s = "\<lparr>destructor_label_addresses = [Some CHR ''A'', Some CHR ''B''], return_label_address = None,
       next_label_address = 2, executed = []\<rparr>"
      and ?s1.0 = "\<lparr>destructor_label_addresses = [Some CHR ''A'', Some CHR ''B''], return_label_address = Some 10,
       next_label_address = 1, executed = [CHR ''B'']\<rparr>"
      and l = "CHR ''C''"]
  from inst mk rn have one: "\<exists>pend. take (nat (next_label_address \<lparr>destructor_label_addresses = [Some CHR ''A'', Some CHR ''B''], return_label_address = Some 11,
       next_label_address = 1, executed = [CHR ''B'', CHR ''B'']\<rparr>))
       (destructor_label_addresses \<lparr>destructor_label_addresses = [Some CHR ''A'', Some CHR ''B''], return_label_address = Some 11,
       next_label_address = 1, executed = [CHR ''B'', CHR ''B'']\<rparr>) = map Some pend \<and>
      mset pend + mset (executed \<lparr>destructor_label_addresses = [Some CHR ''A'', Some CHR ''B''], return_label_address = Some 11,
       next_label_address = 1, executed = [CHR ''B'', CHR ''B'']\<rparr>) =
        mset (pushed [Push CHR ''A'', MarkScope, Push CHR ''B'', UnwindToMarker 10 0, MarkScope, Push CHR ''B'',
        UnwindToMarker 11 0])"
    by blast
  from inst mk rz have two: "mset (executed \<lparr>destructor_label_addresses = [Some CHR ''A'', Some CHR ''B''], return_label_address = Some 12,
       next_label_address = 0, executed = [CHR ''B'', CHR ''B'', CHR ''A'']\<rparr>) =
        mset (pushed [Push CHR ''A'', MarkScope, Push CHR ''B'', UnwindToMarker 10 0, MarkScope, Push CHR ''B'',
        UnwindToMarker 11 0])"
    by blast
  from inst es lt have three: "deref (destructor_label_addresses \<lparr>destructor_label_addresses = [Some CHR ''A'', Some CHR ''B''], return_label_address = Some 10,
       next_label_address = 1, executed = [CHR ''B'']\<rparr>)
       (next_label_address \<lparr>destructor_label_addresses = [Some CHR ''A'', Some CHR ''B''], return_label_address = Some 10,
       next_label_address = 1, executed = [CHR ''B'']\<rparr>) =
     Some (last (executed \<lparr>destructor_label_addresses = [Some CHR ''A'', Some CHR ''B''], return_label_address = Some 10,
       next_label_address = 1, executed = [CHR ''B'']\<rparr>))"
    by blast
  from two have two': "mset [CHR ''B'', CHR ''B'', CHR ''A''] = mset [CHR ''A'', CHR ''B'', CHR ''B'']"
    by simp
  show ?thesis
    using mk rn rz es ps one two' three by (simp add: deref_def)
qed

end
